theory Spec2Isabelle
  imports Main
begin

section \<open>Shared types\<close>

text \<open>
  The two enumerations of \<^verbatim>\<open>main.cpp\<close>. A \<^verbatim>\<open>State*\<close> held by an elevator is one of
  the three concrete state classes; the model keeps the tag that \<^verbatim>\<open>getType()\<close> returns
  and dispatches the virtual calls on it.
\<close>

datatype Direction = UP | DOWN

datatype StateType = IDLE | MOVING_UP | MOVING_DOWN

text \<open>
  Everything the program writes to \<^verbatim>\<open>cout\<close> is one of a fixed set of lines. A line is
  kept with its arguments instead of its text; the state name printed by
  \<^verbatim>\<open>getStateName\<close> is kept as the state tag.
\<close>

datatype line =
    ManagerCreated
  | ElevatorCreated int int
  | PanelCreated int
  | ChangedState int StateType
  | RequestReceived int
  | ElevatorReceived int int
  | Processing int int
  | NowAtFloor int int
  | PanelRequesting int
  | PanelUpdated int int StateType

text \<open>
  Two operations of the program have no defined result in C++: dereferencing a pointer that
  does not point to an object, and \<^verbatim>\<open>pop()\<close> on an empty \<^verbatim>\<open>std::queue\<close>. The model
  returns them as faults.
\<close>

datatype fault = DanglingPointer | PopEmptyQueue

text \<open>
  Objects live in stores; a pointer is a position in the store of its class.
\<close>

definition deref :: "'a list \<Rightarrow> nat \<Rightarrow> fault + 'a" where
  "deref store p = (if p < length store then Inr (store ! p) else Inl DanglingPointer)"

section \<open>The elevator and its state objects\<close>

text \<open>
  Class \<^verbatim>\<open>Elevator\<close>. Floors are C++ \<^verbatim>\<open>int\<close>s, 32 bits wide; the model keeps
  them as integers and writes the wrap-around out where the code can overflow. The movement
  loop only steps between the current floor and the target (lemma \<open>floor_path_between\<close>
  below), so it never leaves the range of \<^verbatim>\<open>int\<close> when both ends are in it. The back
  pointer \<^verbatim>\<open>manager\<close> is stored by the constructor and never read, so it is left out.
\<close>

record Elevator =
  ident :: int
  currentFloor :: int
  state :: StateType
  floorQueue :: "int list"

definition Elevator_new :: "int \<Rightarrow> Elevator \<times> line list" where
  "Elevator_new i =
     (\<lparr>ident = i, currentFloor = 1, state = IDLE, floorQueue = []\<rparr>, [ElevatorCreated i 1])"

definition setState :: "Elevator \<Rightarrow> StateType \<Rightarrow> Elevator \<times> line list" where
  "setState e newState = (e\<lparr>state := newState\<rparr>, [ChangedState (ident e) newState])"

definition IdleState_moveUp :: "Elevator \<Rightarrow> Elevator \<times> line list" where
  "IdleState_moveUp e = setState e MOVING_UP"

definition IdleState_moveDown :: "Elevator \<Rightarrow> Elevator \<times> line list" where
  "IdleState_moveDown e = setState e MOVING_DOWN"

definition IdleState_stop :: "Elevator \<Rightarrow> Elevator \<times> line list" where
  "IdleState_stop e = (e, [])"

definition MovingUpState_moveUp :: "Elevator \<Rightarrow> Elevator \<times> line list" where
  "MovingUpState_moveUp e = (e, [])"

definition MovingUpState_moveDown :: "Elevator \<Rightarrow> Elevator \<times> line list" where
  "MovingUpState_moveDown e = setState e MOVING_DOWN"

definition MovingUpState_stop :: "Elevator \<Rightarrow> Elevator \<times> line list" where
  "MovingUpState_stop e = setState e IDLE"

definition MovingDownState_moveUp :: "Elevator \<Rightarrow> Elevator \<times> line list" where
  "MovingDownState_moveUp e = setState e MOVING_UP"

definition MovingDownState_moveDown :: "Elevator \<Rightarrow> Elevator \<times> line list" where
  "MovingDownState_moveDown e = (e, [])"

definition MovingDownState_stop :: "Elevator \<Rightarrow> Elevator \<times> line list" where
  "MovingDownState_stop e = setState e IDLE"

text \<open>The virtual calls \<^verbatim>\<open>state->moveUp()\<close>, \<^verbatim>\<open>state->moveDown()\<close>, \<^verbatim>\<open>state->stop()\<close>.\<close>

definition moveUp :: "Elevator \<Rightarrow> Elevator \<times> line list" where
  "moveUp e =
     (case state e of
        IDLE \<Rightarrow> IdleState_moveUp e
      | MOVING_UP \<Rightarrow> MovingUpState_moveUp e
      | MOVING_DOWN \<Rightarrow> MovingDownState_moveUp e)"

definition moveDown :: "Elevator \<Rightarrow> Elevator \<times> line list" where
  "moveDown e =
     (case state e of
        IDLE \<Rightarrow> IdleState_moveDown e
      | MOVING_UP \<Rightarrow> MovingUpState_moveDown e
      | MOVING_DOWN \<Rightarrow> MovingDownState_moveDown e)"

definition stop :: "Elevator \<Rightarrow> Elevator \<times> line list" where
  "stop e =
     (case state e of
        IDLE \<Rightarrow> IdleState_stop e
      | MOVING_UP \<Rightarrow> MovingUpState_stop e
      | MOVING_DOWN \<Rightarrow> MovingDownState_stop e)"

text \<open>
  The \<^verbatim>\<open>while\<close> loop of \<^verbatim>\<open>simulateMovement\<close>: one floor per iteration, one line per
  iteration.
\<close>

function simulateMovement_loop :: "Elevator \<Rightarrow> int \<Rightarrow> Elevator \<times> line list" where
  "simulateMovement_loop e targetFloor =
     (if currentFloor e \<noteq> targetFloor then
        (let e1 = (if targetFloor > currentFloor e
                   then e\<lparr>currentFloor := currentFloor e + 1\<rparr>
                   else e\<lparr>currentFloor := currentFloor e - 1\<rparr>)
         in case simulateMovement_loop e1 targetFloor of
              (e2, out) \<Rightarrow> (e2, NowAtFloor (ident e1) (currentFloor e1) # out))
      else (e, []))"
  by pat_completeness auto
termination
  by (relation "measure (\<lambda>(e, targetFloor). nat \<bar>targetFloor - currentFloor e\<bar>)") auto

declare simulateMovement_loop.simps [simp del]

definition simulateMovement :: "Elevator \<Rightarrow> int \<Rightarrow> fault + Elevator \<times> line list" where
  "simulateMovement e targetFloor =
     (case simulateMovement_loop e targetFloor of
        (e1, out1) \<Rightarrow>
          (case floorQueue e1 of
             [] \<Rightarrow> Inl PopEmptyQueue
           | front # rest \<Rightarrow>
               (case stop (e1\<lparr>floorQueue := rest\<rparr>) of
                  (e2, out2) \<Rightarrow> Inr (e2, out1 @ out2))))"

definition processQueue :: "Elevator \<Rightarrow> fault + Elevator \<times> line list" where
  "processQueue e =
     (case floorQueue e of
        [] \<Rightarrow> Inr (e, [])
      | targetFloor # rest \<Rightarrow>
          if targetFloor > currentFloor e then
            (case moveUp e of
               (e1, out1) \<Rightarrow>
                 (case simulateMovement e1 targetFloor of
                    Inl f \<Rightarrow> Inl f
                  | Inr (e2, out2) \<Rightarrow>
                      Inr (e2, Processing (ident e) targetFloor # out1 @ out2)))
          else if targetFloor < currentFloor e then
            (case moveDown e of
               (e1, out1) \<Rightarrow>
                 (case simulateMovement e1 targetFloor of
                    Inl f \<Rightarrow> Inl f
                  | Inr (e2, out2) \<Rightarrow>
                      Inr (e2, Processing (ident e) targetFloor # out1 @ out2)))
          else Inr (e, [Processing (ident e) targetFloor]))"

definition Elevator_addToQueue :: "Elevator \<Rightarrow> int \<Rightarrow> fault + Elevator \<times> line list" where
  "Elevator_addToQueue e floor =
     (case processQueue (e\<lparr>floorQueue := floorQueue e @ [floor]\<rparr>) of
        Inl f \<Rightarrow> Inl f
      | Inr (e1, out) \<Rightarrow> Inr (e1, ElevatorReceived (ident e) floor # out))"

section \<open>The selection strategy\<close>

text \<open>
  The strategy subtracts two floors and takes \<^verbatim>\<open>abs\<close> of the difference, both in
  \<^verbatim>\<open>int\<close>. \<open>int32\<close> is the value a 32-bit two's complement register holds after an
  operation whose mathematical result is \<open>x\<close>; \<open>abs32\<close> is \<^verbatim>\<open>abs\<close> on such a register,
  which leaves the least \<^verbatim>\<open>int\<close> as it is. \<open>floorDistance\<close> is the expression
  \<^verbatim>\<open>abs(floor - elevator->getCurrentFloor())\<close>, which the code writes twice.
\<close>

definition int32 :: "int \<Rightarrow> int" where
  "int32 x = (x + 2147483648) mod 4294967296 - 2147483648"

definition abs32 :: "int \<Rightarrow> int" where
  "abs32 x = int32 \<bar>x\<bar>"

definition floorDistance :: "int \<Rightarrow> Elevator \<Rightarrow> int" where
  "floorDistance floor elevator = abs32 (int32 (floor - currentFloor elevator))"

text \<open>
  \<^verbatim>\<open>NearestElevatorStrategy::selectElevator\<close>. The vector holds pointers into the elevator
  store. The loop carries \<^verbatim>\<open>nearestElevator\<close> and \<^verbatim>\<open>shortestDistance\<close>; the
  \<^verbatim>\<open>continue\<close> of the idle branch and the fall-through of the other two branches all
  lead to the next iteration.
\<close>

fun selectElevator_loop ::
  "Elevator list \<Rightarrow> int \<Rightarrow> Direction \<Rightarrow> nat list \<Rightarrow> nat \<times> int \<Rightarrow> fault + nat \<times> int" where
  "selectElevator_loop store floor direction [] best = Inr best"
| "selectElevator_loop store floor direction (p # ps) (nearestElevator, shortestDistance) =
     (case deref store p of
        Inl f \<Rightarrow> Inl f
      | Inr elevator \<Rightarrow>
          (let distance = floorDistance floor elevator;
               currentState = state elevator
           in if currentState = IDLE \<and> distance < shortestDistance then
                selectElevator_loop store floor direction ps (p, distance)
              else if direction = UP \<and> currentState = MOVING_UP \<and>
                      currentFloor elevator < floor \<and> distance < shortestDistance then
                selectElevator_loop store floor direction ps (p, distance)
              else if direction = DOWN \<and> currentState = MOVING_DOWN \<and>
                      currentFloor elevator > floor \<and> distance < shortestDistance then
                selectElevator_loop store floor direction ps (p, distance)
              else selectElevator_loop store floor direction ps
                     (nearestElevator, shortestDistance)))"

text \<open>The result \<open>Inr None\<close> is the \<^verbatim>\<open>nullptr\<close> of the empty vector.\<close>

definition selectElevator ::
  "Elevator list \<Rightarrow> int \<Rightarrow> Direction \<Rightarrow> nat list \<Rightarrow> fault + nat option" where
  "selectElevator store floor direction elevators =
     (case elevators of
        [] \<Rightarrow> Inr None
      | first # rest \<Rightarrow>
          (case deref store first of
             Inl f \<Rightarrow> Inl f
           | Inr e0 \<Rightarrow>
               (case selectElevator_loop store floor direction elevators
                       (first, floorDistance floor e0) of
                  Inl f \<Rightarrow> Inl f
                | Inr (nearestElevator, shortestDistance) \<Rightarrow> Inr (Some nearestElevator))))"

section \<open>Panels, the manager and the program state\<close>

text \<open>
  Class \<^verbatim>\<open>OuterPanel\<close>. The member \<^verbatim>\<open>currentDirection\<close> is never written or read and
  the back pointer to the manager is the one manager of the program; both are left out.
\<close>

record OuterPanel =
  panelFloor :: int
  currentDisplayFloor :: int

definition OuterPanel_new :: "int \<Rightarrow> OuterPanel \<times> line list" where
  "OuterPanel_new floorNum =
     (\<lparr>panelFloor = floorNum, currentDisplayFloor = 1\<rparr>, [PanelCreated floorNum])"

definition OuterPanel_update :: "OuterPanel \<Rightarrow> int \<Rightarrow> StateType \<Rightarrow> OuterPanel \<times> line list" where
  "OuterPanel_update panel floor st =
     (panel\<lparr>currentDisplayFloor := floor\<rparr>, [PanelUpdated (panelFloor panel) floor st])"

text \<open>
  Class \<^verbatim>\<open>ElevatorManager\<close>: three vectors of pointers. The strategy object is the
  \<^verbatim>\<open>NearestElevatorStrategy\<close> that the constructor installs; the program never replaces
  it.
\<close>

record ElevatorManager =
  elevators :: "nat list"
  panels :: "nat list"
  observers :: "nat list"

definition ElevatorManager_new :: "ElevatorManager \<times> line list" where
  "ElevatorManager_new = (\<lparr>elevators = [], panels = [], observers = []\<rparr>, [ManagerCreated])"

definition addElevator :: "ElevatorManager \<Rightarrow> nat \<Rightarrow> ElevatorManager" where
  "addElevator m elevator = m\<lparr>elevators := elevators m @ [elevator]\<rparr>"

definition addPanel :: "ElevatorManager \<Rightarrow> nat \<Rightarrow> ElevatorManager" where
  "addPanel m panel = m\<lparr>panels := panels m @ [panel], observers := observers m @ [panel]\<rparr>"

text \<open>The objects of the program, the manager and the console.\<close>

record World =
  elevatorStore :: "Elevator list"
  panelStore :: "OuterPanel list"
  manager :: ElevatorManager
  cout :: "line list"

text \<open>\<^verbatim>\<open>ElevatorManager::notifyObservers\<close>: the range-for over \<^verbatim>\<open>observers\<close>.\<close>

fun notifyObservers_loop :: "World \<Rightarrow> nat list \<Rightarrow> int \<Rightarrow> StateType \<Rightarrow> fault + World" where
  "notifyObservers_loop w [] floor st = Inr w"
| "notifyObservers_loop w (observer # rest) floor st =
     (case deref (panelStore w) observer of
        Inl f \<Rightarrow> Inl f
      | Inr panel \<Rightarrow>
          (case OuterPanel_update panel floor st of
             (panel1, out) \<Rightarrow>
               notifyObservers_loop
                 (w\<lparr>panelStore := (panelStore w)[observer := panel1], cout := cout w @ out\<rparr>)
                 rest floor st))"

definition notifyObservers :: "World \<Rightarrow> int \<Rightarrow> StateType \<Rightarrow> fault + World" where
  "notifyObservers w floor st = notifyObservers_loop w (observers (manager w)) floor st"

text \<open>\<^verbatim>\<open>ElevatorManager::addToQueue\<close>.\<close>

definition ElevatorManager_addToQueue :: "World \<Rightarrow> int \<Rightarrow> Direction \<Rightarrow> fault + World" where
  "ElevatorManager_addToQueue w floor direction =
     (let w1 = w\<lparr>cout := cout w @ [RequestReceived floor]\<rparr>
      in case selectElevator (elevatorStore w1) floor direction (elevators (manager w1)) of
           Inl f \<Rightarrow> Inl f
         | Inr None \<Rightarrow> Inr w1
         | Inr (Some selectedElevator) \<Rightarrow>
             (case deref (elevatorStore w1) selectedElevator of
                Inl f \<Rightarrow> Inl f
              | Inr e \<Rightarrow>
                  (case Elevator_addToQueue e floor of
                     Inl f \<Rightarrow> Inl f
                   | Inr (e1, out) \<Rightarrow>
                       Inr (w1\<lparr>elevatorStore := (elevatorStore w1)[selectedElevator := e1],
                               cout := cout w1 @ out\<rparr>))))"

text \<open>\<^verbatim>\<open>OuterPanel::requestElevator\<close>.\<close>

definition requestElevator :: "World \<Rightarrow> nat \<Rightarrow> Direction \<Rightarrow> fault + World" where
  "requestElevator w panel direction =
     (case deref (panelStore w) panel of
        Inl f \<Rightarrow> Inl f
      | Inr p \<Rightarrow>
          ElevatorManager_addToQueue
            (w\<lparr>cout := cout w @ [PanelRequesting (panelFloor p)]\<rparr>) (panelFloor p) direction)"

text \<open>
  The objects \<^verbatim>\<open>main\<close> has built when it starts on its requests: two elevators, three
  panels, all registered with the manager. The console holds the lines of the constructors;
  the banners that \<^verbatim>\<open>main\<close> prints itself are left out.
\<close>

definition main_setup :: World where
  "main_setup =
     (let (m0, out0) = ElevatorManager_new;
          (elevator1, out1) = Elevator_new 1;
          (elevator2, out2) = Elevator_new 2;
          m1 = addElevator (addElevator m0 0) 1;
          (panel1, out3) = OuterPanel_new 1;
          (panel2, out4) = OuterPanel_new 2;
          (panel3, out5) = OuterPanel_new 3;
          m2 = addPanel (addPanel (addPanel m1 0) 1) 2
      in \<lparr>elevatorStore = [elevator1, elevator2],
          panelStore = [panel1, panel2, panel3],
          manager = m2,
          cout = out0 @ out1 @ out2 @ out3 @ out4 @ out5\<rparr>)"

section \<open>Reference notions\<close>

text \<open>
  The floors a unit passes on its way from \<open>current\<close> to \<open>target\<close>, one floor apart and
  ending at \<open>target\<close>: upwards \<open>current + 1, \<dots>, target\<close>, downwards
  \<open>current - 1, \<dots>, target\<close>.
\<close>

definition floor_path :: "int \<Rightarrow> int \<Rightarrow> int list" where
  "floor_path current target =
     (if current \<le> target then [current + 1..target] else rev [target..current - 1])"

text \<open>
  The three operations of the state machine, and their issue to the state object of a unit.
\<close>

datatype request = RequestUp | RequestDown | RequestStop

fun issue :: "Elevator \<Rightarrow> request \<Rightarrow> Elevator \<times> line list" where
  "issue e RequestUp = moveUp e"
| "issue e RequestDown = moveDown e"
| "issue e RequestStop = stop e"

fun issue_all :: "Elevator \<Rightarrow> request list \<Rightarrow> Elevator \<times> line list" where
  "issue_all e [] = (e, [])"
| "issue_all e (r # rs) =
     (case issue e r of (e1, out1) \<Rightarrow>
        (case issue_all e1 rs of (e2, out2) \<Rightarrow> (e2, out1 @ out2)))"

text \<open>The transition table of the specification (section 4.1), row by row.\<close>

fun transition_table :: "StateType \<Rightarrow> request \<Rightarrow> StateType" where
  "transition_table IDLE RequestUp = MOVING_UP"
| "transition_table IDLE RequestDown = MOVING_DOWN"
| "transition_table IDLE RequestStop = IDLE"
| "transition_table MOVING_UP RequestUp = MOVING_UP"
| "transition_table MOVING_UP RequestDown = MOVING_DOWN"
| "transition_table MOVING_UP RequestStop = IDLE"
| "transition_table MOVING_DOWN RequestUp = MOVING_UP"
| "transition_table MOVING_DOWN RequestDown = MOVING_DOWN"
| "transition_table MOVING_DOWN RequestStop = IDLE"

text \<open>
  One iteration, read as a whole: the unit under the loop variable takes over exactly when
  one of the three guarded branches fires, each with its test of the distance against
  \<^verbatim>\<open>shortestDistance\<close>.
\<close>

definition takes_over :: "Elevator \<Rightarrow> int \<Rightarrow> Direction \<Rightarrow> int \<Rightarrow> bool" where
  "takes_over e floor direction shortest =
     (state e = IDLE \<and> floorDistance floor e < shortest \<or>
      direction = UP \<and> state e = MOVING_UP \<and> currentFloor e < floor \<and>
        floorDistance floor e < shortest \<or>
      direction = DOWN \<and> state e = MOVING_DOWN \<and> currentFloor e > floor \<and>
        floorDistance floor e < shortest)"

text \<open>
  The branch conditions without the distance test: the units that can take over at all are
  the idle ones and the ones that move in the direction of the call and have not passed its
  floor.
\<close>

definition eligible :: "Elevator \<Rightarrow> int \<Rightarrow> Direction \<Rightarrow> bool" where
  "eligible e floor direction =
     (state e = IDLE \<or>
      direction = UP \<and> state e = MOVING_UP \<and> currentFloor e < floor \<or>
      direction = DOWN \<and> state e = MOVING_DOWN \<and> currentFloor e > floor)"

text \<open>The state a unit moves in on its way from \<open>current\<close> to another floor \<open>target\<close>.\<close>

definition heading :: "int \<Rightarrow> int \<Rightarrow> StateType" where
  "heading current target = (if target > current then MOVING_UP else MOVING_DOWN)"

text \<open>
  Reading the console: the floors a unit reports, the way through a list of floors, and the
  lines that come from \<^verbatim>\<open>OuterPanel::update\<close>.
\<close>

fun visited :: "line list \<Rightarrow> int list" where
  "visited [] = []"
| "visited (NowAtFloor i f # out) = f # visited out"
| "visited (l # out) = visited out"

fun route :: "int \<Rightarrow> int list \<Rightarrow> int list" where
  "route current [] = []"
| "route current (floor # floors) = floor_path current floor @ route floor floors"

fun is_panel_update :: "line \<Rightarrow> bool" where
  "is_panel_update (PanelUpdated p f s) = True"
| "is_panel_update l = False"

text \<open>A caller that hands a unit one floor after the other.\<close>

fun enqueue_all :: "Elevator \<Rightarrow> int list \<Rightarrow> fault + Elevator \<times> line list" where
  "enqueue_all e [] = Inr (e, [])"
| "enqueue_all e (floor # floors) =
     (case Elevator_addToQueue e floor of
        Inl f \<Rightarrow> Inl f
      | Inr (e1, out1) \<Rightarrow>
          (case enqueue_all e1 floors of
             Inl f \<Rightarrow> Inl f
           | Inr (e2, out2) \<Rightarrow> Inr (e2, out1 @ out2)))"

text \<open>One more panel request after an earlier one has returned.\<close>

definition then_request :: "fault + World \<Rightarrow> nat \<Rightarrow> Direction \<Rightarrow> fault + World" where
  "then_request r panel direction =
     (case r of Inl f \<Rightarrow> Inl f | Inr w \<Rightarrow> requestElevator w panel direction)"

section \<open>The movement loop\<close>

lemma deref_valid: "p < length store \<Longrightarrow> deref store p = Inr (store ! p)"
  by (simp add: deref_def)

lemma floor_path_same: "floor_path t t = []"
  by (simp add: floor_path_def)

lemma floor_path_up: "c < t \<Longrightarrow> floor_path c t = (c + 1) # floor_path (c + 1) t"
  by (simp add: floor_path_def upto_rec1)

lemma floor_path_down: "t < c \<Longrightarrow> floor_path c t = (c - 1) # floor_path (c - 1) t"
  by (simp add: floor_path_def upto_rec2)

lemma length_floor_path: "length (floor_path c t) = nat \<bar>t - c\<bar>"
  by (simp add: floor_path_def)

text \<open>
  Every floor on the way lies between the two ends, so the increments and decrements of the
  loop never leave the range spanned by the starting floor and the target.
\<close>

lemma floor_path_between:
  "f \<in> set (floor_path c t) \<Longrightarrow> min c t \<le> f \<and> f \<le> max c t"
  by (auto simp: floor_path_def split: if_splits)

text \<open>The loop ends at the target and prints the floors of the way, in order.\<close>

lemma simulateMovement_loop_result:
  "simulateMovement_loop e t =
     (e\<lparr>currentFloor := t\<rparr>, map (NowAtFloor (ident e)) (floor_path (currentFloor e) t))"
proof (induction e t rule: simulateMovement_loop.induct)
  case (1 e t)
  show ?case
  proof (cases "currentFloor e = t")
    case True
    then show ?thesis
      by (subst simulateMovement_loop.simps) (simp add: floor_path_same)
  next
    case False
    show ?thesis
    proof (cases "t > currentFloor e")
      case True
      have "simulateMovement_loop (e\<lparr>currentFloor := currentFloor e + 1\<rparr>) t =
              (e\<lparr>currentFloor := t\<rparr>,
               map (NowAtFloor (ident e)) (floor_path (currentFloor e + 1) t))"
        using "1.IH" [OF False refl] True by simp
      with False True show ?thesis
        by (subst simulateMovement_loop.simps) (simp add: floor_path_up)
    next
      case down: False
      with False have lt: "t < currentFloor e" by simp
      have "simulateMovement_loop (e\<lparr>currentFloor := currentFloor e - 1\<rparr>) t =
              (e\<lparr>currentFloor := t\<rparr>,
               map (NowAtFloor (ident e)) (floor_path (currentFloor e - 1) t))"
        using "1.IH" [OF False refl] down by simp
      with False down lt show ?thesis
        by (subst simulateMovement_loop.simps) (simp add: floor_path_down)
    qed
  qed
qed

lemma stop_result:
  "stop e = (e\<lparr>state := IDLE\<rparr>, if state e = IDLE then [] else [ChangedState (ident e) IDLE])"
  by (cases "state e")
     (simp_all add: stop_def IdleState_stop_def MovingUpState_stop_def
        MovingDownState_stop_def setState_def)

text \<open>
  C9: for every target floor and every current floor, \<^verbatim>\<open>simulateMovement\<close> returns; the
  floors it passes are one apart and lead towards the target (\<open>\<bar>target - current\<bar>\<close> of
  them, the last one the target), the unit ends at the target, and with a non-empty queue
  the head is popped and \<^verbatim>\<open>stop\<close> leaves the state machine in \<open>IDLE\<close>.
\<close>

theorem simulateMovement_reaches_target:
  assumes "floorQueue e \<noteq> []"
  shows "simulateMovement e target =
           Inr (e\<lparr>currentFloor := target, state := IDLE, floorQueue := tl (floorQueue e)\<rparr>,
                map (NowAtFloor (ident e)) (floor_path (currentFloor e) target) @
                (if state e = IDLE then [] else [ChangedState (ident e) IDLE]))
         \<and> length (floor_path (currentFloor e) target) = nat \<bar>target - currentFloor e\<bar>"
  using assms
  by (cases "floorQueue e")
     (simp_all add: simulateMovement_def simulateMovement_loop_result stop_result
        length_floor_path)

theorem simulateMovement_reaches_target_witness:
  "floorQueue \<lparr>ident = 1, currentFloor = 1, state = MOVING_UP, floorQueue = [3]\<rparr> \<noteq> [] \<and>
   simulateMovement \<lparr>ident = 1, currentFloor = 1, state = MOVING_UP, floorQueue = [3]\<rparr> 3 =
     Inr (\<lparr>ident = 1, currentFloor = 3, state = IDLE, floorQueue = []\<rparr>,
          [NowAtFloor 1 2, NowAtFloor 1 3, ChangedState 1 IDLE])"
  using simulateMovement_reaches_target
    [of "\<lparr>ident = 1, currentFloor = 1, state = MOVING_UP, floorQueue = [3]\<rparr>" 3]
  by (simp add: floor_path_def upto_rec1)

section \<open>The state machine\<close>

lemmas state_method_defs =
  moveUp_def moveDown_def stop_def setState_def
  IdleState_moveUp_def IdleState_moveDown_def IdleState_stop_def
  MovingUpState_moveUp_def MovingUpState_moveDown_def MovingUpState_stop_def
  MovingDownState_moveUp_def MovingDownState_moveDown_def MovingDownState_stop_def

lemma issue_state: "state (fst (issue e r)) = transition_table (state e) r"
  by (cases r; cases "state e") (simp_all add: state_method_defs)

lemma issue_rest:
  "ident (fst (issue e r)) = ident e \<and> currentFloor (fst (issue e r)) = currentFloor e \<and>
   floorQueue (fst (issue e r)) = floorQueue e"
  by (cases r; cases "state e") (simp_all add: state_method_defs)

lemma issue_all_state: "state (fst (issue_all e rs)) = foldl transition_table (state e) rs"
proof (induction rs arbitrary: e)
  case Nil
  show ?case by simp
next
  case (Cons r rs)
  obtain e1 out1 where i: "issue e r = (e1, out1)" by (cases "issue e r")
  obtain e2 out2 where a: "issue_all e1 rs = (e2, out2)" by (cases "issue_all e1 rs")
  have "state e1 = transition_table (state e) r"
    using issue_state [of e r] i by simp
  moreover have "state e2 = foldl transition_table (state e1) rs"
    using Cons.IH [of e1] a by simp
  ultimately show ?case using i a by simp
qed

text \<open>
  C3: every single operation moves the state as the transition table of section 4.1 says,
  so a unit that starts in \<open>IDLE\<close> is, after any finite sequence of operations, in the
  state the table gives; that state is one of \<open>IDLE\<close>, \<open>MOVING_UP\<close>, \<open>MOVING_DOWN\<close>.
\<close>

theorem state_machine_follows_table:
  "state (fst (issue e r)) = transition_table (state e) r \<and>
   state (fst (issue_all (e\<lparr>state := IDLE\<rparr>) rs)) = foldl transition_table IDLE rs \<and>
   state (fst (issue_all (e\<lparr>state := IDLE\<rparr>) rs)) \<in> {IDLE, MOVING_UP, MOVING_DOWN}"
proof -
  have "state (fst (issue_all (e\<lparr>state := IDLE\<rparr>) rs)) = foldl transition_table IDLE rs"
    using issue_all_state [of "e\<lparr>state := IDLE\<rparr>" rs] by simp
  moreover have "state (fst (issue_all (e\<lparr>state := IDLE\<rparr>) rs)) \<in> {IDLE, MOVING_UP, MOVING_DOWN}"
    by (cases "state (fst (issue_all (e\<lparr>state := IDLE\<rparr>) rs))") simp_all
  ultimately show ?thesis using issue_state [of e r] by simp
qed

section \<open>One trip\<close>

lemma moveUp_result:
  "moveUp e = (e\<lparr>state := MOVING_UP\<rparr>,
               if state e = MOVING_UP then [] else [ChangedState (ident e) MOVING_UP])"
  by (cases "state e") (simp_all add: state_method_defs)

lemma moveDown_result:
  "moveDown e = (e\<lparr>state := MOVING_DOWN\<rparr>,
               if state e = MOVING_DOWN then [] else [ChangedState (ident e) MOVING_DOWN])"
  by (cases "state e") (simp_all add: state_method_defs)

lemma processQueue_trip:
  assumes "floorQueue e = target # rest" and "target \<noteq> currentFloor e"
  shows "processQueue e =
           Inr (e\<lparr>currentFloor := target, state := IDLE, floorQueue := rest\<rparr>,
                Processing (ident e) target #
                (if state e = heading (currentFloor e) target then []
                 else [ChangedState (ident e) (heading (currentFloor e) target)]) @
                map (NowAtFloor (ident e)) (floor_path (currentFloor e) target) @
                [ChangedState (ident e) IDLE])"
proof (cases "target > currentFloor e")
  case True
  then show ?thesis
    using assms
    by (simp add: processQueue_def moveUp_result simulateMovement_def
          simulateMovement_loop_result stop_result heading_def)
next
  case False
  with assms have "target < currentFloor e" by simp
  then show ?thesis
    using assms
    by (simp add: processQueue_def moveDown_result simulateMovement_def
          simulateMovement_loop_result stop_result heading_def)
qed

lemma processQueue_same_floor:
  assumes "floorQueue e = target # rest" and "target = currentFloor e"
  shows "processQueue e = Inr (e, [Processing (ident e) target])"
  using assms by (simp add: processQueue_def)

lemma processQueue_total: "\<exists>r. processQueue e = Inr r"
proof (cases "floorQueue e")
  case Nil
  then show ?thesis by (simp add: processQueue_def)
next
  case (Cons target rest)
  then show ?thesis
    using processQueue_trip [of e target rest] processQueue_same_floor [of e target rest]
    by (cases "target = currentFloor e") simp_all
qed

text \<open>
  A floor other than the current one, handed to a unit with an empty queue, is served before
  \<^verbatim>\<open>addToQueue\<close> returns: the console shows the request, the change to the moving state,
  every floor of the way and the change back to \<open>IDLE\<close>; the queue is empty again.
\<close>

lemma trip_completes:
  assumes "floorQueue e = []" and "floor \<noteq> currentFloor e"
  shows "Elevator_addToQueue e floor =
           Inr (e\<lparr>currentFloor := floor, state := IDLE, floorQueue := []\<rparr>,
                [ElevatorReceived (ident e) floor, Processing (ident e) floor] @
                (if state e = heading (currentFloor e) floor then []
                 else [ChangedState (ident e) (heading (currentFloor e) floor)]) @
                map (NowAtFloor (ident e)) (floor_path (currentFloor e) floor) @
                [ChangedState (ident e) IDLE])"
  using assms processQueue_trip [of "e\<lparr>floorQueue := [floor]\<rparr>" floor "[]"]
  by (simp add: Elevator_addToQueue_def)

text \<open>
  Floors handed over one after the other are served in the order of arrival as long as no
  floor repeats the one before it (the first one not the floor the unit stands at).
\<close>

lemma visited_append: "visited (xs @ ys) = visited xs @ visited ys"
  by (induction xs rule: visited.induct) simp_all

lemma visited_steps: "visited (map (NowAtFloor i) fs) = fs"
  by (induction fs) simp_all

lemma enqueue_all_serves_in_order:
  assumes "floorQueue e = []" and "distinct_adj (currentFloor e # floors)"
  shows "\<exists>e' out. enqueue_all e floors = Inr (e', out) \<and>
           visited out = route (currentFloor e) floors \<and>
           floorQueue e' = [] \<and> currentFloor e' = last (currentFloor e # floors)"
  using assms
proof (induction floors arbitrary: e)
  case Nil
  then show ?case by simp
next
  case (Cons floor floors)
  then have ne: "floor \<noteq> currentFloor e" and rest: "distinct_adj (floor # floors)"
    by auto
  define e1 where "e1 = e\<lparr>currentFloor := floor, state := IDLE, floorQueue := []\<rparr>"
  obtain out1 where t: "Elevator_addToQueue e floor = Inr (e1, out1)"
    and v: "visited out1 = floor_path (currentFloor e) floor"
    using trip_completes [OF Cons.prems(1) ne]
    by (simp add: e1_def visited_append visited_steps)
  have "floorQueue e1 = []" and c1: "currentFloor e1 = floor" by (simp_all add: e1_def)
  then obtain e' out where a: "enqueue_all e1 floors = Inr (e', out)"
    and va: "visited out = route floor floors"
    and q: "floorQueue e' = []" and l: "currentFloor e' = last (floor # floors)"
    using Cons.IH [of e1] rest by auto
  show ?case
    using t a v va q l by (simp add: visited_append)
qed

text \<open>No path through \<^verbatim>\<open>Elevator::addToQueue\<close> prints a line of a panel.\<close>

lemma Elevator_addToQueue_prints_no_update:
  assumes "Elevator_addToQueue e floor = Inr (e1, out)"
  shows "filter is_panel_update out = []"
proof -
  obtain target rest where q: "floorQueue (e\<lparr>floorQueue := floorQueue e @ [floor]\<rparr>) = target # rest"
    by (cases "floorQueue e") simp_all
  show ?thesis
  proof (cases "target = currentFloor e")
    case True
    then show ?thesis
      using assms processQueue_same_floor [OF q]
      by (auto simp: Elevator_addToQueue_def)
  next
    case False
    then show ?thesis
      using assms processQueue_trip [OF q]
      by (auto simp: Elevator_addToQueue_def filter_empty_conv split: if_splits)
  qed
qed

section \<open>The selection strategy, iteration by iteration\<close>

text \<open>
  Inside the range of \<^verbatim>\<open>int\<close> the register holds the mathematical value, and the
  distance of the strategy is the number of floors between call and unit whenever that
  number fits.
\<close>

lemma int32_in_range: "- 2147483648 \<le> x \<Longrightarrow> x < 2147483648 \<Longrightarrow> int32 x = x"
  by (simp add: int32_def)

lemma floorDistance_exact:
  "\<bar>floor - currentFloor e\<bar> < 2147483648 \<Longrightarrow> floorDistance floor e = \<bar>floor - currentFloor e\<bar>"
  by (simp add: floorDistance_def abs32_def int32_in_range)

text \<open>
  Outside it the subtraction wraps around: for a call at the greatest \<^verbatim>\<open>int\<close>, an idle
  unit at floor \<open>-1\<close> gets the least \<^verbatim>\<open>int\<close> as its distance and is taken before an
  idle unit at floor 1.
\<close>

lemma selectElevator_wraps_around:
  "floorDistance 2147483647 \<lparr>ident = 2, currentFloor = - 1, state = IDLE, floorQueue = []\<rparr> =
     - 2147483648 \<and>
   selectElevator
     [\<lparr>ident = 1, currentFloor = 1, state = IDLE, floorQueue = []\<rparr>,
      \<lparr>ident = 2, currentFloor = - 1, state = IDLE, floorQueue = []\<rparr>] 2147483647 UP [0, 1] =
     Inr (Some 1)"
  by code_simp

lemma takes_over_iff:
  "takes_over e floor direction shortest =
     (floorDistance floor e < shortest \<and> eligible e floor direction)"
  by (auto simp: takes_over_def eligible_def)

lemma three_guards:
  "(if A \<and> D then f x else if B1 \<and> B2 \<and> B3 \<and> D then f x
    else if C1 \<and> C2 \<and> C3 \<and> D then f x else f y) =
   f (if A \<and> D \<or> B1 \<and> B2 \<and> B3 \<and> D \<or> C1 \<and> C2 \<and> C3 \<and> D then x else y)"
  by (cases D; cases A; cases B1; cases B2; cases B3; cases C1; cases C2; cases C3) simp_all

lemma selectElevator_loop_step:
  assumes "p < length store"
  shows "selectElevator_loop store floor direction (p # ps) (n, d) =
           selectElevator_loop store floor direction ps
             (if takes_over (store ! p) floor direction d
              then (p, floorDistance floor (store ! p)) else (n, d))"
proof -
  have "selectElevator_loop store floor direction (p # ps) (n, d) =
     (if state (store ! p) = IDLE \<and> floorDistance floor (store ! p) < d then
        selectElevator_loop store floor direction ps (p, floorDistance floor (store ! p))
      else if direction = UP \<and> state (store ! p) = MOVING_UP \<and>
              currentFloor (store ! p) < floor \<and> floorDistance floor (store ! p) < d then
        selectElevator_loop store floor direction ps (p, floorDistance floor (store ! p))
      else if direction = DOWN \<and> state (store ! p) = MOVING_DOWN \<and>
              currentFloor (store ! p) > floor \<and> floorDistance floor (store ! p) < d then
        selectElevator_loop store floor direction ps (p, floorDistance floor (store ! p))
      else selectElevator_loop store floor direction ps (n, d))"
    apply (subst selectElevator_loop.simps(2))
    apply (subst deref_valid [OF assms])
    apply (simp only: Let_def sum.case)
    done
  also have "\<dots> = selectElevator_loop store floor direction ps
             (if takes_over (store ! p) floor direction d
              then (p, floorDistance floor (store ! p)) else (n, d))"
    unfolding takes_over_def
    by (rule three_guards [where f = "selectElevator_loop store floor direction ps"
          and x = "(p, floorDistance floor (store ! p))" and y = "(n, d)"])
  finally show ?thesis .
qed

lemma selectElevator_loop_append:
  assumes "list_all (\<lambda>p. p < length store) xs"
  shows "selectElevator_loop store floor direction (xs @ ys) best =
     (case selectElevator_loop store floor direction xs best of
        Inl f \<Rightarrow> Inl f
      | Inr b \<Rightarrow> selectElevator_loop store floor direction ys b)"
  using assms
proof (induction xs arbitrary: best)
  case Nil
  show ?case by simp
next
  case (Cons p ps)
  then have p: "p < length store" and ps: "list_all (\<lambda>p. p < length store) ps" by simp_all
  obtain n d where b: "best = (n, d)" by (cases best)
  show ?case
    unfolding b append_Cons selectElevator_loop_step [OF p] using Cons.IH [OF ps] by simp
qed

text \<open>The loop returns its starting candidate or one of the pointers it has walked over.\<close>

lemma selectElevator_loop_member:
  assumes "list_all (\<lambda>p. p < length store) ps"
  shows "\<exists>n d. selectElevator_loop store floor direction ps (n0, d0) = Inr (n, d) \<and>
           (n = n0 \<or> n \<in> set ps)"
  using assms
proof (induction ps arbitrary: n0 d0)
  case Nil
  show ?case by simp
next
  case (Cons p ps)
  then have p: "p < length store" and ps: "list_all (\<lambda>p. p < length store) ps" by simp_all
  show ?case
  proof (cases "takes_over (store ! p) floor direction d0")
    case True
    then show ?thesis
      using Cons.IH [OF ps, of p "floorDistance floor (store ! p)"]
      unfolding selectElevator_loop_step [OF p] by auto
  next
    case False
    then show ?thesis
      using Cons.IH [OF ps, of n0 d0]
      unfolding selectElevator_loop_step [OF p] by auto
  qed
qed

text \<open>A pass in which no branch fires keeps the candidate and its distance.\<close>

lemma selectElevator_loop_no_branch:
  assumes "list_all (\<lambda>p. p < length store) ps"
    and "list_all (\<lambda>p. \<not> takes_over (store ! p) floor direction d0) ps"
  shows "selectElevator_loop store floor direction ps (n0, d0) = Inr (n0, d0)"
  using assms
proof (induction ps)
  case Nil
  show ?case by simp
next
  case (Cons p ps)
  then have p: "p < length store" and n: "\<not> takes_over (store ! p) floor direction d0"
    by simp_all
  show ?case
    unfolding selectElevator_loop_step [OF p] using n Cons by simp
qed

text \<open>
  A pass over units of which the eligible ones are all farther than \<open>d\<close> leaves a candidate
  distance above \<open>d\<close>.
\<close>

lemma selectElevator_loop_farther:
  assumes "list_all (\<lambda>p. p < length store) ps"
    and "list_all (\<lambda>p. eligible (store ! p) floor direction \<longrightarrow>
                         d < floorDistance floor (store ! p)) ps"
    and "d < d0"
  shows "\<exists>n d1. selectElevator_loop store floor direction ps (n0, d0) = Inr (n, d1) \<and> d < d1"
  using assms
proof (induction ps arbitrary: n0 d0)
  case Nil
  then show ?case by simp
next
  case (Cons p ps)
  then have p: "p < length store" and ps: "list_all (\<lambda>p. p < length store) ps"
    and dp: "eligible (store ! p) floor direction \<longrightarrow> d < floorDistance floor (store ! p)"
    and dps: "list_all (\<lambda>p. eligible (store ! p) floor direction \<longrightarrow>
                             d < floorDistance floor (store ! p)) ps"
    by simp_all
  show ?case
  proof (cases "takes_over (store ! p) floor direction d0")
    case True
    then have "d < floorDistance floor (store ! p)"
      using dp by (simp add: takes_over_iff)
    then show ?thesis
      using True Cons.IH [OF ps dps] unfolding selectElevator_loop_step [OF p] by simp
  next
    case False
    then show ?thesis
      using Cons.IH [OF ps dps Cons.prems(3)] unfolding selectElevator_loop_step [OF p] by simp
  qed
qed

text \<open>
  C10: on a non-empty vector of valid pointers \<^verbatim>\<open>selectElevator\<close> returns a unit of the
  vector, never \<^verbatim>\<open>nullptr\<close>; when no unit satisfies the idle branch or one of the two
  direction branches against the distance of the first unit, it is the first unit, the
  candidate from the start.
\<close>

theorem selectElevator_nonempty_returns_unit:
  assumes "units \<noteq> []"
    and "list_all (\<lambda>p. p < length store) units"
  shows "\<exists>p. selectElevator store floor direction units = Inr (Some p) \<and> p \<in> set units \<and>
           (list_all (\<lambda>q. \<not> takes_over (store ! q) floor direction
                              (floorDistance floor (store ! hd units))) units
            \<longrightarrow> p = hd units)"
proof -
  obtain first rest where e: "units = first # rest"
    using assms(1) by (cases units) auto
  have f: "first < length store" using assms(2) e by simp
  obtain n d where l: "selectElevator_loop store floor direction units
      (first, floorDistance floor (store ! first)) = Inr (n, d)"
    and m: "n = first \<or> n \<in> set units"
    using selectElevator_loop_member [OF assms(2)] by blast
  have s: "selectElevator store floor direction units = Inr (Some n)"
    using l f by (simp add: selectElevator_def e deref_valid)
  have "n \<in> set units" using m e by auto
  moreover have "n = hd units"
    if "list_all (\<lambda>q. \<not> takes_over (store ! q) floor direction
                          (floorDistance floor (store ! hd units))) units"
  proof -
    have "list_all (\<lambda>q. \<not> takes_over (store ! q) floor direction
                          (floorDistance floor (store ! first))) units"
      using that e by simp
    then show ?thesis
      using selectElevator_loop_no_branch [OF assms(2), of floor direction
          "floorDistance floor (store ! first)" first] l e by simp
  qed
  ultimately show ?thesis using s by blast
qed

theorem selectElevator_nonempty_returns_unit_witness:
  "[0, 1] \<noteq> [] \<and>
   list_all (\<lambda>p. p < length
     [\<lparr>ident = 1, currentFloor = 1, state = IDLE, floorQueue = []\<rparr>,
      \<lparr>ident = 2, currentFloor = 1, state = IDLE, floorQueue = []\<rparr>]) [0, 1] \<and>
   list_all (\<lambda>q. \<not> takes_over
     ([\<lparr>ident = 1, currentFloor = 1, state = IDLE, floorQueue = []\<rparr>,
       \<lparr>ident = 2, currentFloor = 1, state = IDLE, floorQueue = []\<rparr>] ! q) 3 DOWN
     (floorDistance 3
       ([\<lparr>ident = 1, currentFloor = 1, state = IDLE, floorQueue = []\<rparr>,
         \<lparr>ident = 2, currentFloor = 1, state = IDLE, floorQueue = []\<rparr>] ! hd [0, 1])))
     [0, 1] \<and>
   selectElevator
     [\<lparr>ident = 1, currentFloor = 1, state = IDLE, floorQueue = []\<rparr>,
      \<lparr>ident = 2, currentFloor = 1, state = IDLE, floorQueue = []\<rparr>] 3 DOWN [0, 1] =
        Inr (Some 0)"
  using selectElevator_nonempty_returns_unit
    [of "[0, 1]"
        "[\<lparr>ident = 1, currentFloor = 1, state = IDLE, floorQueue = []\<rparr>,
          \<lparr>ident = 2, currentFloor = 1, state = IDLE, floorQueue = []\<rparr>]" 3 DOWN]
  by (auto simp: takes_over_def floorDistance_def abs32_def int32_def)

text \<open>
  C5, as the code has it. Distances are the ones the code computes (\<open>floorDistance\<close>), and a
  unit can only take over when it is eligible: idle, or moving in the direction of the call
  towards its floor. An idle unit is selected when it is the first unit of the vector or
  strictly nearer than the first unit, every eligible unit listed before it is strictly
  farther than it, and no eligible unit listed after it is strictly nearer. At equal
  distance an idle unit therefore wins over a unit moving towards the call when the idle unit
  comes first in the vector, not because it is idle.
\<close>

theorem idle_unit_selected_when_nearest_so_far:
  assumes valid: "list_all (\<lambda>p. p < length store) (pre @ a # post)"
    and idle: "state (store ! a) = IDLE"
    and first: "pre = [] \<or> floorDistance floor (store ! a) < floorDistance floor (store ! hd pre)"
    and before: "list_all (\<lambda>p. eligible (store ! p) floor direction \<longrightarrow>
                   floorDistance floor (store ! a) < floorDistance floor (store ! p)) pre"
    and after: "list_all (\<lambda>p. eligible (store ! p) floor direction \<longrightarrow>
                   floorDistance floor (store ! a) \<le> floorDistance floor (store ! p)) post"
  shows "selectElevator store floor direction (pre @ a # post) = Inr (Some a)"
proof -
  let ?da = "floorDistance floor (store ! a)"
  have vpre: "list_all (\<lambda>p. p < length store) pre" and va: "a < length store"
    and vpost: "list_all (\<lambda>p. p < length store) post"
    using valid by simp_all
  have "list_all (\<lambda>p. \<not> takes_over (store ! p) floor direction ?da) post"
    using after by (auto simp: list_all_iff takes_over_iff)
  then have tail: "selectElevator_loop store floor direction post (a, ?da) = Inr (a, ?da)"
    using selectElevator_loop_no_branch [OF vpost] by simp
  show ?thesis
  proof (cases pre)
    case Nil
    have "\<not> takes_over (store ! a) floor direction ?da"
      by (simp add: takes_over_iff)
    then have "selectElevator_loop store floor direction (a # post) (a, ?da) = Inr (a, ?da)"
      using tail unfolding selectElevator_loop_step [OF va] by simp
    then show ?thesis
      by (simp add: selectElevator_def Nil deref_valid [OF va])
  next
    case (Cons head rest)
    have vf: "head < length store" using vpre Cons by simp
    have df: "?da < floorDistance floor (store ! head)" using first Cons by simp
    obtain n d1 where l: "selectElevator_loop store floor direction pre
        (head, floorDistance floor (store ! head)) = Inr (n, d1)" and d1: "?da < d1"
      using selectElevator_loop_farther [OF vpre before df] by blast
    have "takes_over (store ! a) floor direction d1"
      using d1 idle by (simp add: takes_over_iff eligible_def)
    then have step: "selectElevator_loop store floor direction (a # post) (n, d1) = Inr (a, ?da)"
      using tail unfolding selectElevator_loop_step [OF va] by simp
    have "selectElevator_loop store floor direction (pre @ a # post)
        (head, floorDistance floor (store ! head)) = Inr (a, ?da)"
      using l step by (simp add: selectElevator_loop_append [OF vpre])
    then show ?thesis
      by (simp add: selectElevator_def Cons deref_valid [OF vf])
  qed
qed

theorem idle_unit_selected_when_nearest_so_far_witness:
  "list_all (\<lambda>p. p < length
     [\<lparr>ident = 1, currentFloor = 9, state = IDLE, floorQueue = []\<rparr>,
      \<lparr>ident = 2, currentFloor = 1, state = IDLE, floorQueue = []\<rparr>,
      \<lparr>ident = 3, currentFloor = 5, state = MOVING_DOWN, floorQueue = [2]\<rparr>,
      \<lparr>ident = 4, currentFloor = 4, state = MOVING_UP, floorQueue = [8]\<rparr>])
     ([0] @ 1 # [2, 3]) \<and>
   state ([\<lparr>ident = 1, currentFloor = 9, state = IDLE, floorQueue = []\<rparr>,
      \<lparr>ident = 2, currentFloor = 1, state = IDLE, floorQueue = []\<rparr>,
      \<lparr>ident = 3, currentFloor = 5, state = MOVING_DOWN, floorQueue = [2]\<rparr>,
      \<lparr>ident = 4, currentFloor = 4, state = MOVING_UP, floorQueue = [8]\<rparr>] ! 1) = IDLE \<and>
   floorDistance 3 \<lparr>ident = 2, currentFloor = 1, state = IDLE, floorQueue = []\<rparr> = 2 \<and>
   floorDistance 3 \<lparr>ident = 1, currentFloor = 9, state = IDLE, floorQueue = []\<rparr> = 6 \<and>
   floorDistance 3 \<lparr>ident = 3, currentFloor = 5, state = MOVING_DOWN, floorQueue = [2]\<rparr> = 2 \<and>
   eligible \<lparr>ident = 3, currentFloor = 5, state = MOVING_DOWN, floorQueue = [2]\<rparr> 3 DOWN \<and>
   floorDistance 3 \<lparr>ident = 4, currentFloor = 4, state = MOVING_UP, floorQueue = [8]\<rparr> = 1 \<and>
   \<not> eligible \<lparr>ident = 4, currentFloor = 4, state = MOVING_UP, floorQueue = [8]\<rparr> 3 DOWN \<and>
   selectElevator
     [\<lparr>ident = 1, currentFloor = 9, state = IDLE, floorQueue = []\<rparr>,
      \<lparr>ident = 2, currentFloor = 1, state = IDLE, floorQueue = []\<rparr>,
      \<lparr>ident = 3, currentFloor = 5, state = MOVING_DOWN, floorQueue = [2]\<rparr>,
      \<lparr>ident = 4, currentFloor = 4, state = MOVING_UP, floorQueue = [8]\<rparr>] 3 DOWN
     ([0] @ 1 # [2, 3]) = Inr (Some 1)"
  using idle_unit_selected_when_nearest_so_far
    [of "[\<lparr>ident = 1, currentFloor = 9, state = IDLE, floorQueue = []\<rparr>,
          \<lparr>ident = 2, currentFloor = 1, state = IDLE, floorQueue = []\<rparr>,
          \<lparr>ident = 3, currentFloor = 5, state = MOVING_DOWN, floorQueue = [2]\<rparr>,
          \<lparr>ident = 4, currentFloor = 4, state = MOVING_UP, floorQueue = [8]\<rparr>]"
        "[0]" 1 "[2, 3]" 3 DOWN]
  by (simp add: eligible_def floorDistance_def abs32_def int32_def)

text \<open>
  The claim C5 as it stands fails: a unit moving down towards the call, two floors above it
  and first in the vector, keeps the call against an idle unit two floors below it.
\<close>

theorem moving_unit_listed_first_keeps_tie:
  "selectElevator
     [\<lparr>ident = 1, currentFloor = 5, state = MOVING_DOWN, floorQueue = [2]\<rparr>,
      \<lparr>ident = 2, currentFloor = 1, state = IDLE, floorQueue = []\<rparr>] 3 DOWN [0, 1] =
     Inr (Some 0) \<and>
   floorDistance 3 \<lparr>ident = 1, currentFloor = 5, state = MOVING_DOWN, floorQueue = [2]\<rparr> = 2 \<and>
   floorDistance 3 \<lparr>ident = 2, currentFloor = 1, state = IDLE, floorQueue = []\<rparr> = 2"
  by code_simp

section \<open>The manager\<close>

text \<open>What the loop over the observers leaves behind, for any remaining part of the vector.\<close>

lemma notifyObservers_loop_result:
  assumes "list_all (\<lambda>p. p < length (panelStore w)) os"
  shows "\<exists>w'. notifyObservers_loop w os floor st = Inr w' \<and>
           cout w' = cout w @ map (\<lambda>p. PanelUpdated (panelFloor (panelStore w ! p)) floor st) os \<and>
           elevatorStore w' = elevatorStore w \<and> manager w' = manager w \<and>
           length (panelStore w') = length (panelStore w) \<and>
           map panelFloor (panelStore w') = map panelFloor (panelStore w) \<and>
           list_all (\<lambda>p. currentDisplayFloor (panelStore w' ! p) = floor) os \<and>
           (\<forall>q. q \<notin> set os \<longrightarrow> panelStore w' ! q = panelStore w ! q)"
  using assms
proof (induction os arbitrary: w)
  case Nil
  show ?case by simp
next
  case (Cons p ps)
  then have p: "p < length (panelStore w)"
    and ps: "list_all (\<lambda>p. p < length (panelStore w)) ps" by simp_all
  define w1 where "w1 = w\<lparr>panelStore := (panelStore w)[p := (panelStore w ! p)\<lparr>currentDisplayFloor := floor\<rparr>],
                          cout := cout w @ [PanelUpdated (panelFloor (panelStore w ! p)) floor st]\<rparr>"
  have step: "notifyObservers_loop w (p # ps) floor st = notifyObservers_loop w1 ps floor st"
    by (simp add: deref_valid [OF p] OuterPanel_update_def w1_def)
  have len: "length (panelStore w1) = length (panelStore w)" by (simp add: w1_def)
  have fl: "map panelFloor (panelStore w1) = map panelFloor (panelStore w)"
    using p by (simp add: w1_def map_update list_update_same_conv)
  have flq: "panelFloor (panelStore w1 ! q) = panelFloor (panelStore w ! q)" if "q < length (panelStore w)" for q
    using that p by (cases "q = p") (simp_all add: w1_def)
  have ps1: "list_all (\<lambda>p. p < length (panelStore w1)) ps" using ps len by simp
  obtain w' where r: "notifyObservers_loop w1 ps floor st = Inr w'"
    and c: "cout w' = cout w1 @ map (\<lambda>p. PanelUpdated (panelFloor (panelStore w1 ! p)) floor st) ps"
    and e: "elevatorStore w' = elevatorStore w1" and m: "manager w' = manager w1"
    and l: "length (panelStore w') = length (panelStore w1)"
    and f: "map panelFloor (panelStore w') = map panelFloor (panelStore w1)"
    and d: "list_all (\<lambda>p. currentDisplayFloor (panelStore w' ! p) = floor) ps"
    and u: "\<forall>q. q \<notin> set ps \<longrightarrow> panelStore w' ! q = panelStore w1 ! q"
    using Cons.IH [OF ps1] by blast
  have c': "cout w' = cout w @ map (\<lambda>p. PanelUpdated (panelFloor (panelStore w ! p)) floor st) (p # ps)"
  proof -
    have "map (\<lambda>p. PanelUpdated (panelFloor (panelStore w1 ! p)) floor st) ps =
          map (\<lambda>p. PanelUpdated (panelFloor (panelStore w ! p)) floor st) ps"
      using ps flq by (simp add: list_all_iff)
    then show ?thesis using c by (simp add: w1_def)
  qed
  have dp: "currentDisplayFloor (panelStore w' ! p) = floor"
  proof (cases "p \<in> set ps")
    case True
    then show ?thesis using d by (simp add: list_all_iff)
  next
    case False
    then have "panelStore w' ! p = panelStore w1 ! p" using u by simp
    then show ?thesis using p by (simp add: w1_def)
  qed
  have u': "\<forall>q. q \<notin> set (p # ps) \<longrightarrow> panelStore w' ! q = panelStore w ! q"
    using u by (simp add: w1_def)
  show ?case
    unfolding step using r c' e m l f d dp u' len fl by (simp add: w1_def)
qed

lemma observers_foldl_addPanel: "observers (foldl addPanel m ps) = observers m @ ps"
  by (induction ps arbitrary: m) (simp_all add: addPanel_def)

text \<open>
  C8: with the panels \<open>ps\<close> registered in this order, \<^verbatim>\<open>notifyObservers\<close> calls
  \<^verbatim>\<open>update\<close> once per entry of the observer vector, in the order of registration, each
  time with the floor and state it was given: the console shows one line per observer in
  that order, and every observer displays the floor afterwards.
\<close>

theorem notifyObservers_fan_out:
  assumes "manager w = foldl addPanel m ps"
    and "list_all (\<lambda>p. p < length (panelStore w)) (observers m @ ps)"
  shows "\<exists>w'. notifyObservers w floor st = Inr w' \<and>
           cout w' = cout w @
             map (\<lambda>p. PanelUpdated (panelFloor (panelStore w ! p)) floor st) (observers m @ ps) \<and>
           list_all (\<lambda>p. currentDisplayFloor (panelStore w' ! p) = floor) (observers m @ ps) \<and>
           elevatorStore w' = elevatorStore w \<and> manager w' = manager w"
proof -
  have o: "observers (manager w) = observers m @ ps"
    using assms(1) by (simp add: observers_foldl_addPanel)
  show ?thesis
    using notifyObservers_loop_result [OF assms(2), of floor st]
    unfolding notifyObservers_def o by blast
qed

theorem notifyObservers_fan_out_witness:
  "manager main_setup =
     foldl addPanel (addElevator (addElevator (fst ElevatorManager_new) 0) 1) [0, 1, 2] \<and>
   list_all (\<lambda>p. p < length (panelStore main_setup))
     (observers (addElevator (addElevator (fst ElevatorManager_new) 0) 1) @ [0, 1, 2]) \<and>
   (\<exists>w'. notifyObservers main_setup 2 MOVING_UP = Inr w' \<and>
      cout w' = cout main_setup @
        [PanelUpdated 1 2 MOVING_UP, PanelUpdated 2 2 MOVING_UP, PanelUpdated 3 2 MOVING_UP] \<and>
      list_all (\<lambda>p. currentDisplayFloor (panelStore w' ! p) = 2) [0, 1, 2])"
  using notifyObservers_fan_out
    [of main_setup "addElevator (addElevator (fst ElevatorManager_new) 0) 1" "[0, 1, 2]"
        2 MOVING_UP]
  by (simp add: main_setup_def ElevatorManager_new_def Elevator_new_def OuterPanel_new_def
        addElevator_def addPanel_def) blast

text \<open>
  C7: with no unit registered the strategy returns \<^verbatim>\<open>nullptr\<close> and the call is dropped:
  the manager prints that it received the request, and nothing else changes: no unit, no
  panel, no further line.
\<close>

theorem empty_registry_drops_call:
  assumes "elevators (manager w) = []"
  shows "ElevatorManager_addToQueue w floor direction =
           Inr (w\<lparr>cout := cout w @ [RequestReceived floor]\<rparr>)"
  using assms by (simp add: ElevatorManager_addToQueue_def selectElevator_def Let_def)

theorem empty_registry_drops_call_witness:
  "elevators (manager \<lparr>elevatorStore = [fst (Elevator_new 1)], panelStore = [fst (OuterPanel_new 5)],
       manager = addPanel (fst ElevatorManager_new) 0, cout = []\<rparr>) = [] \<and>
   ElevatorManager_addToQueue
     \<lparr>elevatorStore = [fst (Elevator_new 1)], panelStore = [fst (OuterPanel_new 5)],
       manager = addPanel (fst ElevatorManager_new) 0, cout = []\<rparr> 5 UP =
   Inr \<lparr>elevatorStore = [fst (Elevator_new 1)], panelStore = [fst (OuterPanel_new 5)],
       manager = addPanel (fst ElevatorManager_new) 0, cout = [RequestReceived 5]\<rparr>"
  using empty_registry_drops_call
    [of "\<lparr>elevatorStore = [fst (Elevator_new 1)], panelStore = [fst (OuterPanel_new 5)],
           manager = addPanel (fst ElevatorManager_new) 0, cout = []\<rparr>" 5 UP]
  by (simp add: ElevatorManager_new_def addPanel_def)

text \<open>
  A call of \<^verbatim>\<open>ElevatorManager::addToQueue\<close> that returns has updated no panel and printed
  no line of a panel, whatever the units did.
\<close>

lemma ElevatorManager_addToQueue_notifies_nobody:
  assumes "ElevatorManager_addToQueue w floor direction = Inr w'"
  shows "panelStore w' = panelStore w \<and>
         filter is_panel_update (cout w') = filter is_panel_update (cout w)"
  using assms Elevator_addToQueue_prints_no_update
  by (auto simp: ElevatorManager_addToQueue_def Let_def
        split: sum.splits option.splits prod.splits)

text \<open>
  A call whose floor is not the floor of the selected unit, with the queue of that unit empty,
  is served before \<^verbatim>\<open>ElevatorManager::addToQueue\<close> returns.
\<close>

lemma call_completes:
  assumes "selectElevator (elevatorStore w) floor direction (elevators (manager w)) = Inr (Some p)"
    and "p < length (elevatorStore w)"
    and "floorQueue (elevatorStore w ! p) = []"
    and "currentFloor (elevatorStore w ! p) \<noteq> floor"
  shows "\<exists>w'. ElevatorManager_addToQueue w floor direction = Inr w' \<and>
           elevatorStore w' = (elevatorStore w)
             [p := (elevatorStore w ! p)\<lparr>currentFloor := floor, state := IDLE, floorQueue := []\<rparr>] \<and>
           panelStore w' = panelStore w \<and> manager w' = manager w"
  using assms trip_completes [of "elevatorStore w ! p" floor]
  by (simp add: ElevatorManager_addToQueue_def Let_def deref_valid)

section \<open>Runs of the program\<close>

text \<open>
  C1 on the first request of \<^verbatim>\<open>main\<close> (the panel of floor 3, going down): elevator 1
  travels from floor 1 to floor 3. The console shows the two floors and the return to
  \<open>IDLE\<close>, but no panel is updated: there is no \<open>PanelUpdated\<close> line and every panel
  still displays floor 1, because nothing in the trip calls \<^verbatim>\<open>notifyObservers\<close>.
\<close>

theorem main_first_request_updates_no_panel:
  "requestElevator main_setup 2 DOWN =
    Inr \<lparr>elevatorStore =
          [\<lparr>ident = 1, currentFloor = 3, state = IDLE, floorQueue = []\<rparr>,
           \<lparr>ident = 2, currentFloor = 1, state = IDLE, floorQueue = []\<rparr>],
          panelStore =
            [\<lparr>panelFloor = 1, currentDisplayFloor = 1\<rparr>,
             \<lparr>panelFloor = 2, currentDisplayFloor = 1\<rparr>,
             \<lparr>panelFloor = 3, currentDisplayFloor = 1\<rparr>],
          manager =
            \<lparr>elevators = [0, 1], panels = [0, 1, 2], observers = [0, 1, 2]\<rparr>,
          cout =
            [ManagerCreated, ElevatorCreated 1 1, ElevatorCreated 2 1,
             PanelCreated 1, PanelCreated 2, PanelCreated 3,
             PanelRequesting 3, RequestReceived 3, ElevatorReceived 1 3,
             Processing 1 3, ChangedState 1 MOVING_UP, NowAtFloor 1 2,
             NowAtFloor 1 3, ChangedState 1 IDLE]\<rparr>"
  by code_simp

text \<open>
  C2 on a new unit (floor 1) that is handed floor 1: neither branch of \<^verbatim>\<open>processQueue\<close>
  is taken, so the entry is not popped, \<^verbatim>\<open>stop\<close> is not called and nothing but the two
  request lines is printed.
\<close>

theorem enqueue_current_floor_stays_queued:
  "Elevator_addToQueue (fst (Elevator_new 1)) 1 =
     Inr (\<lparr>ident = 1, currentFloor = 1, state = IDLE, floorQueue = [1]\<rparr>,
          [ElevatorReceived 1 1, Processing 1 1])"
  by code_simp

text \<open>
  C4 on a new unit that is handed the floors 3, 3, 5: the first 3 is served, the second 3
  finds the unit at floor 3 and stays at the head of the queue, and from then on every call
  of \<^verbatim>\<open>processQueue\<close> looks at that head again; floor 5 is never reached.
\<close>

theorem enqueue_repeated_floor_blocks_queue:
  "enqueue_all (fst (Elevator_new 1)) [3, 3, 5] =
     Inr (\<lparr>ident = 1, currentFloor = 3, state = IDLE, floorQueue = [3, 5]\<rparr>,
          [ElevatorReceived 1 3, Processing 1 3, ChangedState 1 MOVING_UP, NowAtFloor 1 2,
           NowAtFloor 1 3, ChangedState 1 IDLE, ElevatorReceived 1 3, Processing 1 3,
           ElevatorReceived 1 5, Processing 1 3])"
  by code_simp

text \<open>
  C6 on the first two requests of \<^verbatim>\<open>main\<close>: the second one (the panel of floor 1, going
  up) is assigned to elevator 2, which stands at floor 1; when the call has returned the
  queue of elevator 2 still holds floor 1.
\<close>

theorem main_second_request_leaves_queue:
  "then_request (requestElevator main_setup 2 DOWN) 0 UP =
    Inr \<lparr>elevatorStore =
          [\<lparr>ident = 1, currentFloor = 3, state = IDLE, floorQueue = []\<rparr>,
           \<lparr>ident = 2, currentFloor = 1, state = IDLE, floorQueue = [1]\<rparr>],
          panelStore =
            [\<lparr>panelFloor = 1, currentDisplayFloor = 1\<rparr>,
             \<lparr>panelFloor = 2, currentDisplayFloor = 1\<rparr>,
             \<lparr>panelFloor = 3, currentDisplayFloor = 1\<rparr>],
          manager =
            \<lparr>elevators = [0, 1], panels = [0, 1, 2], observers = [0, 1, 2]\<rparr>,
          cout =
            [ManagerCreated, ElevatorCreated 1 1, ElevatorCreated 2 1,
             PanelCreated 1, PanelCreated 2, PanelCreated 3,
             PanelRequesting 3, RequestReceived 3, ElevatorReceived 1 3,
             Processing 1 3, ChangedState 1 MOVING_UP, NowAtFloor 1 2,
             NowAtFloor 1 3, ChangedState 1 IDLE, PanelRequesting 1,
             RequestReceived 1, ElevatorReceived 2 1, Processing 2 1]\<rparr>"
  by code_simp

end
